theory Spec2Isabelle
  imports Main "HOL-Library.Sublist"
begin

section \<open>Strings\<close>

text \<open>
  A JavaScript string is a sequence of UTF-16 code units. The model takes \<open>string\<close>
  (a list of 8-bit characters) and reads each character as the code unit of the same
  number, so it covers the strings whose code units are below 256 (Latin-1). On those
  strings the functions below do what the built-ins of the same name do. Lowering keeps
  the length of such a string; a code unit whose lower-case form is longer (U+0130) is
  not among them, and the resolver over 16-bit code units further down is the model
  for it.
\<close>

definition toLowerChar :: "char \<Rightarrow> char" where
  \<comment> \<open>\<open>A\<close>-\<open>Z\<close> and the Latin-1 capitals (U+00C0-U+00DE, not the sign U+00D7) have their
      lower-case form 32 positions up; every other code unit below 256 is unchanged.\<close>
  "toLowerChar c =
     (let n = (of_char c :: nat)
      in if (65 \<le> n \<and> n \<le> 90) \<or> (192 \<le> n \<and> n \<le> 222 \<and> n \<noteq> 215)
         then char_of (n + 32) else c)"

definition toLowerCase :: "string \<Rightarrow> string" where
  "toLowerCase s = map toLowerChar s"

definition isWhiteSpace :: "char \<Rightarrow> bool" where
  \<comment> \<open>white space and line terminators of ECMAScript below 256:
      TAB, LF, VT, FF, CR, SP, NBSP\<close>
  "isWhiteSpace c = ((of_char c :: nat) \<in> {9, 10, 11, 12, 13, 32, 160})"

definition trim :: "string \<Rightarrow> string" where
  "trim s = rev (dropWhile isWhiteSpace (rev (dropWhile isWhiteSpace s)))"

definition startsWith :: "string \<Rightarrow> string \<Rightarrow> bool" where
  "startsWith s t = prefix t s"

definition endsWith :: "string \<Rightarrow> string \<Rightarrow> bool" where
  "endsWith s t = suffix t s"

definition includes_str :: "string \<Rightarrow> string \<Rightarrow> bool" where
  \<comment> \<open>\<open>s.includes(t)\<close>\<close>
  "includes_str s t = sublist t s"

fun split_on :: "char \<Rightarrow> string \<Rightarrow> string list" where
  \<comment> \<open>\<open>s.split(d)\<close> for a one-character separator; the empty string gives \<open>[""]\<close>\<close>
  "split_on d [] = [[]]"
| "split_on d (c # cs) =
     (if c = d then [] # split_on d cs
      else (case split_on d cs of
              [] \<Rightarrow> [[c]]
            | p # ps \<Rightarrow> (c # p) # ps))"

fun join :: "string \<Rightarrow> string list \<Rightarrow> string" where
  \<comment> \<open>\<open>parts.join(sep)\<close>\<close>
  "join sep [] = []"
| "join sep [p] = p"
| "join sep (p # q # ps) = p @ sep @ join sep (q # ps)"

definition lastPart :: "string list \<Rightarrow> string" where
  \<comment> \<open>\<open>parts[parts.length - 1]\<close>, on the result of a split, which is never empty\<close>
  "lastPart parts = last parts"

section \<open>The repository tree\<close>

datatype node_type = Blob | Tree

record FileNode =
  path :: string
  type :: node_type
  sha :: string
  size :: "nat option"
  url :: string

section \<open>resolveActualPath\<close>

definition fileNameOf :: "string \<Rightarrow> string" where
  \<comment> \<open>\<open>fileNameOnly\<close>: the last part of the suggested path as given (not trimmed), lowered\<close>
  "fileNameOf suggestedPath = toLowerCase (lastPart (split_on CHR ''/'' suggestedPath))"

definition nameMatches :: "string \<Rightarrow> FileNode \<Rightarrow> bool" where
  \<comment> \<open>the predicate of stages 2 and 3: the last part of the lowered path is the target\<close>
  "nameMatches target n =
     (lastPart (split_on CHR ''/'' (toLowerCase (path n))) = target \<and> type n = Blob)"

definition exact :: "string \<Rightarrow> FileNode list \<Rightarrow> FileNode option" where
  \<comment> \<open>1. Exact match (case insensitive)\<close>
  "exact suggestedPath tree =
     find (\<lambda>n. toLowerCase (path n) = trim (toLowerCase suggestedPath) \<and> type n = Blob) tree"

definition fileOnlyMatch :: "string \<Rightarrow> FileNode list \<Rightarrow> FileNode option" where
  \<comment> \<open>2. Direct filename match (ignoring directories)\<close>
  "fileOnlyMatch suggestedPath tree = find (nameMatches (fileNameOf suggestedPath)) tree"

definition extensions :: "string list" where
  "extensions = ['''', ''.py'', ''.js'', ''.ts'', ''.md'', ''.html'', ''.css'', ''.json'',
     ''.txt'', ''.cpp'', ''.h'', ''.java'', ''.go'', ''.tsx'', ''.jsx'']"

fun extLoop :: "string \<Rightarrow> FileNode list \<Rightarrow> string list \<Rightarrow> FileNode option" where
  \<comment> \<open>the \<open>for (const ext of extensions)\<close> loop: the first extension with a match returns\<close>
  "extLoop fileNameOnly tree [] = None"
| "extLoop fileNameOnly tree (ext # exts) =
     (let target = toLowerCase
            (if includes_str fileNameOnly ''.'' then fileNameOnly else fileNameOnly @ ext)
      in case find (nameMatches target) tree of
           Some m \<Rightarrow> Some m
         | None \<Rightarrow> extLoop fileNameOnly tree exts)"

definition extMatch :: "string \<Rightarrow> FileNode list \<Rightarrow> FileNode option" where
  \<comment> \<open>3. Filename with common extensions\<close>
  "extMatch suggestedPath tree = extLoop (fileNameOf suggestedPath) tree extensions"

definition suffixMatch :: "string \<Rightarrow> FileNode list \<Rightarrow> FileNode option" where
  \<comment> \<open>4. Deep path suffix match: the last two parts of the suggested path, joined\<close>
  "suffixMatch suggestedPath tree =
     (let pathParts = split_on CHR ''/'' suggestedPath
      in if length pathParts > 1
         then let suffix = toLowerCase (join ''/'' (drop (length pathParts - 2) pathParts))
              in find (\<lambda>n. endsWith (toLowerCase (path n)) suffix \<and> type n = Blob) tree
         else None)"

definition partial :: "string \<Rightarrow> FileNode list \<Rightarrow> FileNode option" where
  \<comment> \<open>5. Partial filename match (at least 4 characters)\<close>
  "partial suggestedPath tree =
     (let fileNameOnly = fileNameOf suggestedPath
      in if length fileNameOnly \<ge> 4
         then find (\<lambda>n. includes_str (toLowerCase (path n)) fileNameOnly \<and> type n = Blob) tree
         else None)"

definition resolveActualPath :: "string \<Rightarrow> FileNode list \<Rightarrow> string option" where
  "resolveActualPath suggestedPath tree =
     (if suggestedPath = [] \<or> tree = [] then None
      else case exact suggestedPath tree of Some n \<Rightarrow> Some (path n) | None \<Rightarrow>
           (case fileOnlyMatch suggestedPath tree of Some n \<Rightarrow> Some (path n) | None \<Rightarrow>
           (case extMatch suggestedPath tree of Some n \<Rightarrow> Some (path n) | None \<Rightarrow>
           (case suffixMatch suggestedPath tree of Some n \<Rightarrow> Some (path n) | None \<Rightarrow>
           (case partial suggestedPath tree of Some n \<Rightarrow> Some (path n) | None \<Rightarrow>
            None)))))"

text \<open>
  The variant resolver of the specification in which stage 3 is left out: stages 1, 2,
  4 and 5 in that order, behind the same guard.
\<close>

definition resolveSkip3 :: "string \<Rightarrow> FileNode list \<Rightarrow> string option" where
  "resolveSkip3 suggestedPath tree =
     (if suggestedPath = [] \<or> tree = [] then None
      else case exact suggestedPath tree of Some n \<Rightarrow> Some (path n) | None \<Rightarrow>
           (case fileOnlyMatch suggestedPath tree of Some n \<Rightarrow> Some (path n) | None \<Rightarrow>
           (case suffixMatch suggestedPath tree of Some n \<Rightarrow> Some (path n) | None \<Rightarrow>
           (case partial suggestedPath tree of Some n \<Rightarrow> Some (path n) | None \<Rightarrow>
            None))))"

text \<open>
  The extension cascade as the specification words it: the fixed list of fourteen
  extensions, and the first of them, in list order, for which some file entry has the
  file name with that extension as its final segment; the hit is the first such entry.
\<close>

definition cascadeExtensions :: "string list" where
  "cascadeExtensions = [''.py'', ''.js'', ''.ts'', ''.md'', ''.html'', ''.css'', ''.json'',
     ''.txt'', ''.cpp'', ''.h'', ''.java'', ''.go'', ''.tsx'', ''.jsx'']"

definition cascadeFirstHit :: "string \<Rightarrow> FileNode list \<Rightarrow> FileNode option" where
  "cascadeFirstHit fileName tree =
     (case find (\<lambda>ext. \<exists>n \<in> set tree. nameMatches (fileName @ ext) n) cascadeExtensions of
        None \<Rightarrow> None
      | Some ext \<Rightarrow> find (nameMatches (fileName @ ext)) tree)"

section \<open>safeJsonParse\<close>

text \<open>
  \<open>JSON.parse\<close> is the platform's decoder, not code of the repository: it is a parameter
  \<open>JSON_parse\<close> of the model, a function from the text to either the exception it throws
  (\<open>Inl\<close>) or the value it returns (\<open>Inr\<close>). The console is the state the function
  writes to: each \<open>console.error\<close> call appends its argument list.
\<close>

datatype 'e log_arg = LogStr string | LogErr 'e

type_synonym 'e console = "'e log_arg list list"

datatype 'e exn =
    DecoderError 'e   \<comment> \<open>an exception of \<open>JSON.parse\<close>\<close>
  | Error (message: string)   \<comment> \<open>\<open>new Error(message)\<close>\<close>

definition isAsciiLetter :: "char \<Rightarrow> bool" where
  \<comment> \<open>what \<open>[a-z]\<close> matches under the flag \<open>i\<close>\<close>
  "isAsciiLetter c =
     (let n = (of_char c :: nat) in (65 \<le> n \<and> n \<le> 90) \<or> (97 \<le> n \<and> n \<le> 122))"

definition fence :: string where
  \<comment> \<open>three backticks\<close>
  "fence = [CHR 0x60, CHR 0x60, CHR 0x60]"

definition stripOpeningFence :: "string \<Rightarrow> string" where
  \<comment> \<open>\<open>.replace(/^```[a-z]*\n?/i, '')\<close>: the fence at the start, the letters after it
      and one line feed if it follows\<close>
  "stripOpeningFence s =
     (if startsWith s fence
      then (let r = dropWhile isAsciiLetter (drop 3 s)
            in case r of
                 [] \<Rightarrow> []
               | c # cs \<Rightarrow> if c = CHR 0x0A then cs else r)
      else s)"

definition stripClosingFence :: "string \<Rightarrow> string" where
  \<comment> \<open>\<open>.replace(/\n?```$/i, '')\<close>: the fence at the very end, with the line feed before
      it if there is one\<close>
  "stripClosingFence s =
     (if endsWith s (CHR 0x0A # fence) then take (length s - 4) s
      else if endsWith s fence then take (length s - 3) s
      else s)"

definition cleaned :: "string \<Rightarrow> string" where
  "cleaned text =
     (let c = trim text
      in if startsWith c fence then stripClosingFence (stripOpeningFence c) else c)"

fun indexOf :: "string \<Rightarrow> char \<Rightarrow> int" where
  \<comment> \<open>\<open>s.indexOf(c)\<close>: the first position of \<open>c\<close>, or -1\<close>
  "indexOf [] c = -1"
| "indexOf (x # xs) c =
     (if x = c then 0 else (let i = indexOf xs c in if i = -1 then -1 else i + 1))"

definition lastIndexOf :: "string \<Rightarrow> char \<Rightarrow> int" where
  \<comment> \<open>\<open>s.lastIndexOf(c)\<close>: the last position of \<open>c\<close>, or -1\<close>
  "lastIndexOf s c =
     (let i = indexOf (rev s) c in if i = -1 then -1 else int (length s) - 1 - i)"

definition slice :: "string \<Rightarrow> int \<Rightarrow> int \<Rightarrow> string" where
  \<comment> \<open>\<open>s.slice(a, b)\<close>: a negative index counts from the end, both are clamped\<close>
  "slice s a b =
     (let len = int (length s);
          from = (if a < 0 then max (len + a) 0 else min a len);
          to = (if b < 0 then max (len + b) 0 else min b len)
      in take (nat (to - from)) (drop (nat from) s))"

definition invalidFormat :: string where
  "invalidFormat = ''The AI provided an invalid data format or the response was truncated. Please try again.''"

definition boundaryStart :: "string \<Rightarrow> int" where
  "boundaryStart text =
     (let startObj = indexOf text CHR ''{'';
          startArr = indexOf text CHR ''[''
      in if startObj \<noteq> -1 \<and> (startArr = -1 \<or> startObj < startArr) then startObj else startArr)"

definition boundaryEnd :: "string \<Rightarrow> int" where
  "boundaryEnd text =
     (let endObj = lastIndexOf text CHR ''}'';
          endArr = lastIndexOf text CHR '']''
      in if endObj \<noteq> -1 \<and> (endArr = -1 \<or> endObj > endArr) then endObj else endArr)"

definition safeJsonParse ::
  "(string \<Rightarrow> 'e + 'j) \<Rightarrow> string \<Rightarrow> 'e console \<Rightarrow> ('e exn + 'j) \<times> 'e console" where
  "safeJsonParse JSON_parse text console =
     (case JSON_parse (cleaned text) of
        Inr v \<Rightarrow> (Inr v, console)
      | Inl e \<Rightarrow>
          (let console1 = console @ [[LogStr ''JSON parse failed. Raw Text:'', LogStr text]];
               start = boundaryStart text;
               end' = boundaryEnd text
           in if start \<noteq> -1 \<and> end' \<noteq> -1 \<and> end' > start
              then (case JSON_parse (slice text start (end' + 1)) of
                      Inr v \<Rightarrow> (Inr v, console1)
                    | Inl innerError \<Rightarrow>
                        (Inl (Error invalidFormat),
                         console1 @ [[LogStr ''Nested JSON recovery failed'', LogErr innerError]]))
              else (Inl (Error invalidFormat), console1)))"

text \<open>
  The boundaries of Strategy B as the specification words them. A position is a natural
  number, and a missing character is \<open>None\<close>.
\<close>

definition firstPos :: "char \<Rightarrow> string \<Rightarrow> nat option" where
  "firstPos c s = (if c \<in> set s then Some (length (takeWhile (\<lambda>x. x \<noteq> c) s)) else None)"

definition lastPos :: "char \<Rightarrow> string \<Rightarrow> nat option" where
  "lastPos c s =
     (if c \<in> set s then Some (length s - 1 - length (takeWhile (\<lambda>x. x \<noteq> c) (rev s)))
      else None)"

definition specStart :: "string \<Rightarrow> nat option" where
  \<comment> \<open>the first \<open>{\<close> if there is one and no \<open>[\<close> exists or the \<open>{\<close> is before it;
      otherwise the first \<open>[\<close>\<close>
  "specStart text =
     (case firstPos CHR ''{'' text of
        Some i \<Rightarrow>
          (case firstPos CHR ''['' text of
             None \<Rightarrow> Some i
           | Some j \<Rightarrow> if i < j then Some i else Some j)
      | None \<Rightarrow> firstPos CHR ''['' text)"

definition specEnd :: "string \<Rightarrow> nat option" where
  \<comment> \<open>the later of the last \<open>}\<close> and the last \<open>]\<close>\<close>
  "specEnd text =
     (case (lastPos CHR ''}'' text, lastPos CHR '']'' text) of
        (Some i, Some j) \<Rightarrow> Some (max i j)
      | (Some i, None) \<Rightarrow> Some i
      | (None, r) \<Rightarrow> r)"

definition specStrategyB :: "(string \<Rightarrow> 'e + 'j) \<Rightarrow> string \<Rightarrow> ('e + 'j) option" where
  \<comment> \<open>the decoder's answer on the slice from start through end inclusive when both
      boundaries exist and the end is strictly after the start; \<open>None\<close> when no parse
      is attempted\<close>
  "specStrategyB JSON_parse text =
     (case (specStart text, specEnd text) of
        (Some s, Some t) \<Rightarrow>
          if s < t then Some (JSON_parse (take (t + 1 - s) (drop s text))) else None
      | _ \<Rightarrow> None)"

text \<open>
  A small decoder to run the model on concrete texts: it accepts a text that opens with
  a brace and closes with one, or opens with a bracket and closes with one, and returns
  the text itself as the value. It stands for no decoder of the program; the theorems
  hold for every decoder.
\<close>

definition bracketDecoder :: "string \<Rightarrow> string + string" where
  "bracketDecoder s =
     (if s \<noteq> [] \<and> ((hd s = CHR ''{'' \<and> last s = CHR ''}'') \<or> (hd s = CHR ''['' \<and> last s = CHR '']''))
      then Inr s else Inl ''SyntaxError'')"

section \<open>resolveActualPath over 16-bit code units\<close>

text \<open>
  The strings above are limited to the code units below 256, and there lowering keeps
  the length of a string. \<open>String.prototype.toLowerCase\<close> does not in general: the
  capital I with dot above, U+0130, becomes the two code units U+0069 U+0307. Where the
  length of the lowered file name matters, the resolver is therefore modelled once more,
  the same lines of the source, over lists of code units given as integers, and
  with the lowering as a parameter \<open>lower\<close>, since the Unicode table behind
  \<open>toLowerCase\<close> belongs to the platform. The code unit of \<open>/\<close> is 47.
\<close>

definition ustr :: "string \<Rightarrow> int list" where
  \<comment> \<open>the code units of a text written with 8-bit characters\<close>
  "ustr s = map of_char s"

definition isWhiteSpace16 :: "int \<Rightarrow> bool" where
  \<comment> \<open>the white space and line terminators of ECMAScript\<close>
  "isWhiteSpace16 n =
     (n \<in> {9, 10, 11, 12, 13, 32, 160, 5760, 8232, 8233, 8239, 8287, 12288, 65279}
      \<or> (8192 \<le> n \<and> n \<le> 8202))"

definition trim16 :: "int list \<Rightarrow> int list" where
  "trim16 s = rev (dropWhile isWhiteSpace16 (rev (dropWhile isWhiteSpace16 s)))"

definition endsWith16 :: "int list \<Rightarrow> int list \<Rightarrow> bool" where
  "endsWith16 s t = suffix t s"

definition includes16 :: "int list \<Rightarrow> int list \<Rightarrow> bool" where
  \<comment> \<open>\<open>s.includes(t)\<close>\<close>
  "includes16 s t = sublist t s"

fun split16 :: "int \<Rightarrow> int list \<Rightarrow> int list list" where
  \<comment> \<open>\<open>s.split(d)\<close> for a separator of one code unit\<close>
  "split16 d [] = [[]]"
| "split16 d (c # cs) =
     (if c = d then [] # split16 d cs
      else (case split16 d cs of
              [] \<Rightarrow> [[c]]
            | p # ps \<Rightarrow> (c # p) # ps))"

fun join16 :: "int list \<Rightarrow> int list list \<Rightarrow> int list" where
  "join16 sep [] = []"
| "join16 sep [p] = p"
| "join16 sep (p # q # ps) = p @ sep @ join16 sep (q # ps)"

definition lastPart16 :: "int list list \<Rightarrow> int list" where
  "lastPart16 parts = last parts"

record FileNode16 =
  path16 :: "int list"
  type16 :: node_type
  sha16 :: "int list"
  size16 :: "nat option"
  url16 :: "int list"

definition fileNameOf16 :: "(int list \<Rightarrow> int list) \<Rightarrow> int list \<Rightarrow> int list" where
  \<comment> \<open>\<open>fileNameOnly\<close>\<close>
  "fileNameOf16 lower suggestedPath = lower (lastPart16 (split16 47 suggestedPath))"

definition nameMatches16 :: "(int list \<Rightarrow> int list) \<Rightarrow> int list \<Rightarrow> FileNode16 \<Rightarrow> bool" where
  "nameMatches16 lower target n =
     (lastPart16 (split16 47 (lower (path16 n))) = target \<and> type16 n = Blob)"

definition exact16 ::
  "(int list \<Rightarrow> int list) \<Rightarrow> int list \<Rightarrow> FileNode16 list \<Rightarrow> FileNode16 option" where
  \<comment> \<open>1. Exact match (case insensitive)\<close>
  "exact16 lower suggestedPath tree =
     find (\<lambda>n. lower (path16 n) = trim16 (lower suggestedPath) \<and> type16 n = Blob) tree"

definition fileOnlyMatch16 ::
  "(int list \<Rightarrow> int list) \<Rightarrow> int list \<Rightarrow> FileNode16 list \<Rightarrow> FileNode16 option" where
  \<comment> \<open>2. Direct filename match (ignoring directories)\<close>
  "fileOnlyMatch16 lower suggestedPath tree =
     find (nameMatches16 lower (fileNameOf16 lower suggestedPath)) tree"

fun extLoop16 ::
  "(int list \<Rightarrow> int list) \<Rightarrow> int list \<Rightarrow> FileNode16 list \<Rightarrow> int list list
     \<Rightarrow> FileNode16 option" where
  "extLoop16 lower fileNameOnly tree [] = None"
| "extLoop16 lower fileNameOnly tree (ext # exts) =
     (let target = lower
            (if includes16 fileNameOnly (ustr ''.'') then fileNameOnly else fileNameOnly @ ext)
      in case find (nameMatches16 lower target) tree of
           Some m \<Rightarrow> Some m
         | None \<Rightarrow> extLoop16 lower fileNameOnly tree exts)"

definition extMatch16 ::
  "(int list \<Rightarrow> int list) \<Rightarrow> int list \<Rightarrow> FileNode16 list \<Rightarrow> FileNode16 option" where
  \<comment> \<open>3. Filename with common extensions: the list \<open>extensions\<close> above\<close>
  "extMatch16 lower suggestedPath tree =
     extLoop16 lower (fileNameOf16 lower suggestedPath) tree (map ustr extensions)"

definition suffixMatch16 ::
  "(int list \<Rightarrow> int list) \<Rightarrow> int list \<Rightarrow> FileNode16 list \<Rightarrow> FileNode16 option" where
  \<comment> \<open>4. Deep path suffix match\<close>
  "suffixMatch16 lower suggestedPath tree =
     (let pathParts = split16 47 suggestedPath
      in if length pathParts > 1
         then let suffix = lower (join16 (ustr ''/'') (drop (length pathParts - 2) pathParts))
              in find (\<lambda>n. endsWith16 (lower (path16 n)) suffix \<and> type16 n = Blob) tree
         else None)"

definition partial16 ::
  "(int list \<Rightarrow> int list) \<Rightarrow> int list \<Rightarrow> FileNode16 list \<Rightarrow> FileNode16 option" where
  \<comment> \<open>5. Partial filename match (at least 4 characters)\<close>
  "partial16 lower suggestedPath tree =
     (let fileNameOnly = fileNameOf16 lower suggestedPath
      in if length fileNameOnly \<ge> 4
         then find (\<lambda>n. includes16 (lower (path16 n)) fileNameOnly \<and> type16 n = Blob) tree
         else None)"

definition resolveActualPath16 ::
  "(int list \<Rightarrow> int list) \<Rightarrow> int list \<Rightarrow> FileNode16 list \<Rightarrow> int list option" where
  "resolveActualPath16 lower suggestedPath tree =
     (if suggestedPath = [] \<or> tree = [] then None
      else case exact16 lower suggestedPath tree of Some n \<Rightarrow> Some (path16 n) | None \<Rightarrow>
           (case fileOnlyMatch16 lower suggestedPath tree of Some n \<Rightarrow> Some (path16 n) | None \<Rightarrow>
           (case extMatch16 lower suggestedPath tree of Some n \<Rightarrow> Some (path16 n) | None \<Rightarrow>
           (case suffixMatch16 lower suggestedPath tree of Some n \<Rightarrow> Some (path16 n) | None \<Rightarrow>
           (case partial16 lower suggestedPath tree of Some n \<Rightarrow> Some (path16 n) | None \<Rightarrow>
            None)))))"

text \<open>
  The lowering on the code units that the examples use: those below 256, as above, and
  U+0130 (304), whose lower-case form is \<open>i\<close> (105) followed by the combining dot
  above U+0307 (775), itself unchanged. Other code units with a lower-case form are left
  as they are, so this function stands for \<open>toLowerCase\<close> only on strings made of
  the code units named here.
\<close>

definition toLowerUnit16 :: "int \<Rightarrow> int list" where
  "toLowerUnit16 n =
     (if n = 304 then [105, 775]
      else if (65 \<le> n \<and> n \<le> 90) \<or> (192 \<le> n \<and> n \<le> 222 \<and> n \<noteq> 215) then [n + 32]
      else [n])"

definition toLowerCase16 :: "int list \<Rightarrow> int list" where
  "toLowerCase16 s = concat (map toLowerUnit16 s)"

section \<open>Facts about the string functions and the stages\<close>

lemma split_on_not_Nil: "split_on d s \<noteq> []"
  by (induction s) (auto split: list.splits)

lemma toLowerChar_idem: "toLowerChar (toLowerChar c) = toLowerChar c"
proof -
  have lt: "(of_char c :: nat) < 256" by simp
  show ?thesis
    using lt by (auto simp: toLowerChar_def Let_def)
qed

lemma toLowerCase_idem: "toLowerCase (toLowerCase s) = toLowerCase s"
  by (simp add: toLowerCase_def toLowerChar_idem)

lemma toLowerCase_append: "toLowerCase (s @ t) = toLowerCase s @ toLowerCase t"
  by (simp add: toLowerCase_def)

lemma toLowerChar_dot: "toLowerChar c = CHR ''.'' \<longleftrightarrow> c = CHR ''.''"
proof
  assume h: "toLowerChar c = CHR ''.''"
  have lt: "(of_char c :: nat) < 256" by simp
  show "c = CHR ''.''"
  proof (rule ccontr)
    assume ne: "c \<noteq> CHR ''.''"
    with h have up: "(65 \<le> (of_char c :: nat) \<and> (of_char c :: nat) \<le> 90)
        \<or> (192 \<le> (of_char c :: nat) \<and> (of_char c :: nat) \<le> 222 \<and> (of_char c :: nat) \<noteq> 215)"
      and eq: "char_of ((of_char c :: nat) + 32) = CHR ''.''"
      by (auto simp: toLowerChar_def Let_def split: if_splits)
    from eq have "(of_char (char_of ((of_char c :: nat) + 32)) :: nat) = of_char CHR ''.''"
      by simp
    with up lt show False by (auto simp: of_char_of)
  qed
next
  assume "c = CHR ''.''"
  then show "toLowerChar c = CHR ''.''" by (simp add: toLowerChar_def)
qed

lemma dot_in_toLowerCase: "CHR ''.'' \<in> set (toLowerCase s) \<longleftrightarrow> CHR ''.'' \<in> set s"
proof -
  have "CHR ''.'' \<in> set (toLowerCase s) \<longleftrightarrow> (\<exists>c \<in> set s. CHR ''.'' = toLowerChar c)"
    by (simp add: toLowerCase_def image_iff)
  also have "\<dots> \<longleftrightarrow> (\<exists>c \<in> set s. c = CHR ''.'')"
    by (metis toLowerChar_dot)
  finally show ?thesis by simp
qed

lemma includes_str_single: "includes_str s [c] \<longleftrightarrow> c \<in> set s"
  by (auto simp: includes_str_def sublist_def in_set_conv_decomp)

lemma find_nameMatches_in_tree:
  assumes "find (nameMatches t) tree = Some m"
  shows "m \<in> set tree \<and> type m = Blob"
  using assms by (auto simp: find_Some_iff nameMatches_def)

lemma extLoop_in_tree:
  "extLoop fn tree exts = Some m \<Longrightarrow> m \<in> set tree \<and> type m = Blob"
proof (induction exts)
  case Nil
  then show ?case by simp
next
  case (Cons ext exts)
  then show ?case
    by (auto simp: Let_def split: option.splits dest: find_nameMatches_in_tree)
qed

lemma exact_in_tree: "exact sp tree = Some m \<Longrightarrow> m \<in> set tree \<and> type m = Blob"
  by (auto simp: exact_def find_Some_iff)

lemma fileOnlyMatch_in_tree:
  "fileOnlyMatch sp tree = Some m \<Longrightarrow> m \<in> set tree \<and> type m = Blob"
  by (simp add: fileOnlyMatch_def find_nameMatches_in_tree)

lemma extMatch_in_tree: "extMatch sp tree = Some m \<Longrightarrow> m \<in> set tree \<and> type m = Blob"
  by (simp add: extMatch_def extLoop_in_tree)

lemma suffixMatch_in_tree:
  "suffixMatch sp tree = Some m \<Longrightarrow> m \<in> set tree \<and> type m = Blob"
  by (auto simp: suffixMatch_def Let_def find_Some_iff split: if_splits)

lemma partial_in_tree: "partial sp tree = Some m \<Longrightarrow> m \<in> set tree \<and> type m = Blob"
  by (auto simp: partial_def Let_def find_Some_iff split: if_splits)

lemmas stages_in_tree =
  exact_in_tree fileOnlyMatch_in_tree extMatch_in_tree suffixMatch_in_tree partial_in_tree

lemma fileNameOf_lowered: "toLowerCase (fileNameOf sp) = fileNameOf sp"
  by (simp add: fileNameOf_def toLowerCase_idem)

lemma extLoop_dot:
  assumes "CHR ''.'' \<in> set fn" "toLowerCase fn = fn"
  shows "extLoop fn tree (ext # exts) = find (nameMatches fn) tree"
proof (induction exts arbitrary: ext)
  case Nil
  show ?case using assms by (simp add: includes_str_single split: option.splits)
next
  case (Cons e es)
  have "extLoop fn tree (ext # e # es) =
      (case find (nameMatches fn) tree of Some m \<Rightarrow> Some m | None \<Rightarrow> extLoop fn tree (e # es))"
    using assms by (simp add: includes_str_single)
  also have "\<dots> = find (nameMatches fn) tree"
    by (simp del: extLoop.simps add: Cons.IH split: option.splits)
  finally show ?case .
qed

lemma extMatch_dot:
  assumes "CHR ''.'' \<in> set (lastPart (split_on CHR ''/'' sp))"
  shows "extMatch sp tree = fileOnlyMatch sp tree"
proof -
  have "CHR ''.'' \<in> set (fileNameOf sp)"
    using assms by (simp add: fileNameOf_def dot_in_toLowerCase)
  then have "extLoop (fileNameOf sp) tree extensions = find (nameMatches (fileNameOf sp)) tree"
    unfolding extensions_def by (rule extLoop_dot [OF _ fileNameOf_lowered])
  then show ?thesis
    by (simp add: extMatch_def fileOnlyMatch_def)
qed

lemma extLoop_no_dot:
  assumes "CHR ''.'' \<notin> set fn" "toLowerCase fn = fn" "\<forall>ext \<in> set exts. toLowerCase ext = ext"
  shows "extLoop fn tree exts =
     (case find (\<lambda>ext. \<exists>n \<in> set tree. nameMatches (fn @ ext) n) exts of
        None \<Rightarrow> None
      | Some ext \<Rightarrow> find (nameMatches (fn @ ext)) tree)"
  using assms(3)
proof (induction exts)
  case Nil
  show ?case by simp
next
  case (Cons e es)
  have tgt: "toLowerCase (fn @ e) = fn @ e"
    using assms(2) Cons.prems by (simp add: toLowerCase_append)
  show ?case
  proof (cases "find (nameMatches (fn @ e)) tree")
    case None
    then have "\<not> (\<exists>n \<in> set tree. nameMatches (fn @ e) n)"
      by (simp add: find_None_iff)
    with None Cons show ?thesis
      using assms(1) by (simp add: includes_str_single tgt)
  next
    case (Some m)
    then have "\<exists>n \<in> set tree. nameMatches (fn @ e) n"
      by (auto simp: find_Some_iff)
    with Some show ?thesis
      using assms(1) by (simp add: includes_str_single tgt)
  qed
qed

lemma cascadeExtensions_lowered: "\<forall>ext \<in> set cascadeExtensions. toLowerCase ext = ext"
  by (simp add: cascadeExtensions_def toLowerCase_def toLowerChar_def)

lemma extMatch_no_dot:
  assumes "CHR ''.'' \<notin> set (lastPart (split_on CHR ''/'' sp))"
    and "fileOnlyMatch sp tree = None"
  shows "extMatch sp tree = cascadeFirstHit (fileNameOf sp) tree"
proof -
  have nd: "CHR ''.'' \<notin> set (fileNameOf sp)"
    using assms(1) by (simp add: fileNameOf_def dot_in_toLowerCase)
  have ext: "extensions = [] # cascadeExtensions"
    by (simp add: extensions_def cascadeExtensions_def)
  have "extLoop (fileNameOf sp) tree ([] # cascadeExtensions)
      = extLoop (fileNameOf sp) tree cascadeExtensions"
    using assms(2) nd
    by (simp add: fileOnlyMatch_def includes_str_single fileNameOf_lowered)
  also have "\<dots> = cascadeFirstHit (fileNameOf sp) tree"
    unfolding cascadeFirstHit_def
    by (rule extLoop_no_dot [OF nd fileNameOf_lowered cascadeExtensions_lowered])
  finally show ?thesis by (simp add: extMatch_def ext)
qed

lemma resolve_cascade:
  assumes "suggestedPath \<noteq> []"
  shows "resolveActualPath suggestedPath tree =
     (case exact suggestedPath tree of Some n \<Rightarrow> Some (path n) | None \<Rightarrow>
     (case fileOnlyMatch suggestedPath tree of Some n \<Rightarrow> Some (path n) | None \<Rightarrow>
     (case extMatch suggestedPath tree of Some n \<Rightarrow> Some (path n) | None \<Rightarrow>
     (case suffixMatch suggestedPath tree of Some n \<Rightarrow> Some (path n) | None \<Rightarrow>
     (case partial suggestedPath tree of Some n \<Rightarrow> Some (path n) | None \<Rightarrow> None)))))"
proof (cases "tree = []")
  case True
  then show ?thesis
    by (simp add: resolveActualPath_def exact_def fileOnlyMatch_def extMatch_def extensions_def
        suffixMatch_def partial_def Let_def)
next
  case False
  with assms show ?thesis by (simp add: resolveActualPath_def)
qed

section \<open>Properties of resolveActualPath\<close>

text \<open>
  C1, as stated: whenever some file entry has a lowered path equal to the lowered and
  trimmed suggestion, \<open>resolveActualPath\<close> returns the path of the first such entry.
  The guard of the function returns \<open>null\<close> for the empty suggestion before any
  stage: against a file entry whose path is empty, the empty suggestion has an exact
  match and the result is still \<open>null\<close>.
\<close>

theorem exact_precedence_counterexample:
  "type \<lparr>path = '''', type = Blob, sha = ''0'', size = None, url = ''''\<rparr> = Blob \<and>
   toLowerCase (path \<lparr>path = '''', type = Blob, sha = ''0'', size = None, url = ''''\<rparr>)
     = trim (toLowerCase '''') \<and>
   resolveActualPath '''' [\<lparr>path = '''', type = Blob, sha = ''0'', size = None, url = ''''\<rparr>]
     = None"
  by code_simp

text \<open>
  C1, amended: for every suggested path that is not the empty string and every entry
  list, if the entry at position \<open>i\<close> is a file whose lowered path equals the lowered
  and trimmed suggestion, and no earlier entry is, then \<open>resolveActualPath\<close> returns
  the path of that entry as stored, whatever the later stages would match.
\<close>

theorem exact_precedence:
  assumes "suggestedPath \<noteq> []"
    and "i < length tree"
    and "type (tree ! i) = Blob"
    and "toLowerCase (path (tree ! i)) = trim (toLowerCase suggestedPath)"
    and "\<forall>j < i. \<not> (type (tree ! j) = Blob \<and>
           toLowerCase (path (tree ! j)) = trim (toLowerCase suggestedPath))"
  shows "resolveActualPath suggestedPath tree = Some (path (tree ! i))"
proof -
  have "exact suggestedPath tree = Some (tree ! i)"
    unfolding exact_def find_Some_iff using assms(2-5) by blast
  then show ?thesis
    using assms(1) by (simp add: resolve_cascade)
qed

theorem exact_precedence_witness:
  "''src/Main.ts'' \<noteq> [] \<and> (1::nat) < length
     [\<lparr>path = ''lib/main.ts'', type = Blob, sha = [], size = None, url = []\<rparr>,
      \<lparr>path = ''Src/MAIN.ts'', type = Blob, sha = [], size = None, url = []\<rparr>] \<and>
   fileOnlyMatch ''src/Main.ts''
     [\<lparr>path = ''lib/main.ts'', type = Blob, sha = [], size = None, url = []\<rparr>,
      \<lparr>path = ''Src/MAIN.ts'', type = Blob, sha = [], size = None, url = []\<rparr>]
     = Some \<lparr>path = ''lib/main.ts'', type = Blob, sha = [], size = None, url = []\<rparr> \<and>
   resolveActualPath ''src/Main.ts''
     [\<lparr>path = ''lib/main.ts'', type = Blob, sha = [], size = None, url = []\<rparr>,
      \<lparr>path = ''Src/MAIN.ts'', type = Blob, sha = [], size = None, url = []\<rparr>]
     = Some ''Src/MAIN.ts''"
proof -
  let ?tree = "[\<lparr>path = ''lib/main.ts'', type = Blob, sha = [], size = None, url = []\<rparr>,
      \<lparr>path = ''Src/MAIN.ts'', type = Blob, sha = [], size = None, url = []\<rparr>]"
  have h1: "''src/Main.ts'' \<noteq> []" by simp
  have h2: "(1::nat) < length ?tree" by simp
  have h3: "type (?tree ! 1) = Blob" by simp
  have h4: "toLowerCase (path (?tree ! 1)) = trim (toLowerCase ''src/Main.ts'')"
    by code_simp
  have h5: "\<forall>j < (1::nat). \<not> (type (?tree ! j) = Blob \<and>
           toLowerCase (path (?tree ! j)) = trim (toLowerCase ''src/Main.ts''))"
  proof -
    have "toLowerCase (path (?tree ! 0)) \<noteq> trim (toLowerCase ''src/Main.ts'')"
      by code_simp
    then show ?thesis by simp
  qed
  have f: "fileOnlyMatch ''src/Main.ts'' ?tree
     = Some \<lparr>path = ''lib/main.ts'', type = Blob, sha = [], size = None, url = []\<rparr>"
    by code_simp
  from exact_precedence [OF h1 h2 h3 h4 h5] h1 h2 f show ?thesis by simp
qed

text \<open>
  C6: \<open>resolveActualPath\<close> returns \<open>null\<close> at its guard, before any stage, when the
  suggested path is the empty string, whatever the entries, and when the entry list is
  empty, whatever the suggestion.
\<close>

theorem resolve_guard:
  "resolveActualPath [] tree = None \<and> resolveActualPath suggestedPath [] = None"
  by (simp add: resolveActualPath_def)

text \<open>
  C10: every result of \<open>resolveActualPath\<close> other than \<open>null\<close> is the \<open>path\<close> field,
  as stored, of an entry of the given list whose type is \<open>blob\<close>.
\<close>

theorem resolve_returns_stored_path:
  assumes "resolveActualPath suggestedPath tree = Some p"
  shows "\<exists>n \<in> set tree. type n = Blob \<and> path n = p"
  using assms unfolding resolveActualPath_def
  by (auto split: if_splits option.splits dest: stages_in_tree)

theorem resolve_returns_stored_path_witness:
  "resolveActualPath ''README.MD''
     [\<lparr>path = ''docs'', type = Tree, sha = [], size = None, url = []\<rparr>,
      \<lparr>path = ''docs/ReadMe.md'', type = Blob, sha = [], size = None, url = []\<rparr>]
     = Some ''docs/ReadMe.md'' \<and>
   (\<exists>n \<in> set [\<lparr>path = ''docs'', type = Tree, sha = [], size = None, url = []\<rparr>,
      \<lparr>path = ''docs/ReadMe.md'', type = Blob, sha = [], size = None, url = []\<rparr>].
      type n = Blob \<and> path n = ''docs/ReadMe.md'')"
proof -
  have h: "resolveActualPath ''README.MD''
     [\<lparr>path = ''docs'', type = Tree, sha = [], size = None, url = []\<rparr>,
      \<lparr>path = ''docs/ReadMe.md'', type = Blob, sha = [], size = None, url = []\<rparr>]
     = Some ''docs/ReadMe.md''"
    by code_simp
  from resolve_returns_stored_path [OF h] h show ?thesis by blast
qed

text \<open>
  C4: for a suggested path whose final segment has no dot and for which stages 1 and 2
  find nothing, stage 3 is the cascade over the fixed list \<open>.py, .js, .ts, .md, .html,
  .css, .json, .txt, .cpp, .h, .java, .go, .tsx, .jsx\<close> in that order: its result is the
  first file entry whose final segment is the file name with the first extension that
  has any such entry, and, the suggestion not being empty, that entry's path is what
  \<open>resolveActualPath\<close> returns. In particular \<open>foo\<close> resolves to \<open>foo.js\<close> against
  \<open>foo.ts\<close> and \<open>foo.js\<close> in either order.
\<close>

theorem extension_cascade_order:
  assumes "CHR ''.'' \<notin> set (lastPart (split_on CHR ''/'' suggestedPath))"
    and "exact suggestedPath tree = None"
    and "fileOnlyMatch suggestedPath tree = None"
  shows "extMatch suggestedPath tree = cascadeFirstHit (fileNameOf suggestedPath) tree \<and>
         (suggestedPath \<noteq> [] \<longrightarrow>
            (\<forall>n. cascadeFirstHit (fileNameOf suggestedPath) tree = Some n \<longrightarrow>
                 resolveActualPath suggestedPath tree = Some (path n))) \<and>
         resolveActualPath ''foo''
           [\<lparr>path = ''foo.ts'', type = Blob, sha = [], size = None, url = []\<rparr>,
            \<lparr>path = ''foo.js'', type = Blob, sha = [], size = None, url = []\<rparr>]
           = Some ''foo.js'' \<and>
         resolveActualPath ''foo''
           [\<lparr>path = ''foo.js'', type = Blob, sha = [], size = None, url = []\<rparr>,
            \<lparr>path = ''foo.ts'', type = Blob, sha = [], size = None, url = []\<rparr>]
           = Some ''foo.js''"
proof -
  have c: "extMatch suggestedPath tree = cascadeFirstHit (fileNameOf suggestedPath) tree"
    using assms(1,3) by (rule extMatch_no_dot)
  have r: "suggestedPath \<noteq> [] \<longrightarrow>
          (\<forall>n. cascadeFirstHit (fileNameOf suggestedPath) tree = Some n \<longrightarrow>
               resolveActualPath suggestedPath tree = Some (path n))"
    using assms(2,3) c by (simp add: resolve_cascade)
  have f1: "resolveActualPath ''foo''
           [\<lparr>path = ''foo.ts'', type = Blob, sha = [], size = None, url = []\<rparr>,
            \<lparr>path = ''foo.js'', type = Blob, sha = [], size = None, url = []\<rparr>]
         = Some ''foo.js''"
    by code_simp
  have f2: "resolveActualPath ''foo''
           [\<lparr>path = ''foo.js'', type = Blob, sha = [], size = None, url = []\<rparr>,
            \<lparr>path = ''foo.ts'', type = Blob, sha = [], size = None, url = []\<rparr>]
         = Some ''foo.js''"
    by code_simp
  from c r f1 f2 show ?thesis by (intro conjI)
qed

theorem extension_cascade_order_witness:
  "CHR ''.'' \<notin> set (lastPart (split_on CHR ''/'' ''src/Util'')) \<and>
   exact ''src/Util''
     [\<lparr>path = ''lib/util.tsx'', type = Blob, sha = [], size = None, url = []\<rparr>,
      \<lparr>path = ''lib/util.md'', type = Tree, sha = [], size = None, url = []\<rparr>,
      \<lparr>path = ''lib/Util.ts'', type = Blob, sha = [], size = None, url = []\<rparr>] = None \<and>
   fileOnlyMatch ''src/Util''
     [\<lparr>path = ''lib/util.tsx'', type = Blob, sha = [], size = None, url = []\<rparr>,
      \<lparr>path = ''lib/util.md'', type = Tree, sha = [], size = None, url = []\<rparr>,
      \<lparr>path = ''lib/Util.ts'', type = Blob, sha = [], size = None, url = []\<rparr>] = None \<and>
   cascadeFirstHit (fileNameOf ''src/Util'')
     [\<lparr>path = ''lib/util.tsx'', type = Blob, sha = [], size = None, url = []\<rparr>,
      \<lparr>path = ''lib/util.md'', type = Tree, sha = [], size = None, url = []\<rparr>,
      \<lparr>path = ''lib/Util.ts'', type = Blob, sha = [], size = None, url = []\<rparr>]
     = Some \<lparr>path = ''lib/Util.ts'', type = Blob, sha = [], size = None, url = []\<rparr> \<and>
   resolveActualPath ''src/Util''
     [\<lparr>path = ''lib/util.tsx'', type = Blob, sha = [], size = None, url = []\<rparr>,
      \<lparr>path = ''lib/util.md'', type = Tree, sha = [], size = None, url = []\<rparr>,
      \<lparr>path = ''lib/Util.ts'', type = Blob, sha = [], size = None, url = []\<rparr>]
     = Some ''lib/Util.ts''"
proof -
  let ?tree = "[\<lparr>path = ''lib/util.tsx'', type = Blob, sha = [], size = None, url = []\<rparr>,
      \<lparr>path = ''lib/util.md'', type = Tree, sha = [], size = None, url = []\<rparr>,
      \<lparr>path = ''lib/Util.ts'', type = Blob, sha = [], size = None, url = []\<rparr>]"
  have h1: "CHR ''.'' \<notin> set (lastPart (split_on CHR ''/'' ''src/Util''))"
    by code_simp
  have h2: "exact ''src/Util'' ?tree = None" by code_simp
  have h3: "fileOnlyMatch ''src/Util'' ?tree = None" by code_simp
  have hit: "cascadeFirstHit (fileNameOf ''src/Util'') ?tree
     = Some \<lparr>path = ''lib/Util.ts'', type = Blob, sha = [], size = None, url = []\<rparr>"
    by code_simp
  from extension_cascade_order [OF h1 h2 h3] hit
  have "resolveActualPath ''src/Util'' ?tree = Some ''lib/Util.ts''" by simp
  with h1 h2 h3 hit show ?thesis by simp
qed

text \<open>
  C5: for a suggested path whose final segment contains a dot, stage 3 returns exactly
  what stage 2 returns, and \<open>resolveActualPath\<close> agrees on every entry list with the
  resolver that has no stage 3.
\<close>

theorem dotted_name_skips_cascade:
  assumes "CHR ''.'' \<in> set (lastPart (split_on CHR ''/'' suggestedPath))"
  shows "extMatch suggestedPath tree = fileOnlyMatch suggestedPath tree \<and>
         resolveActualPath suggestedPath tree = resolveSkip3 suggestedPath tree"
proof -
  have e: "extMatch suggestedPath tree = fileOnlyMatch suggestedPath tree"
    using assms by (rule extMatch_dot)
  have "resolveActualPath suggestedPath tree = resolveSkip3 suggestedPath tree"
    unfolding resolveActualPath_def resolveSkip3_def
    by (simp add: e split: option.splits)
  with e show ?thesis by simp
qed

theorem dotted_name_skips_cascade_witness:
  "CHR ''.'' \<in> set (lastPart (split_on CHR ''/'' ''docs/Guide.md'')) \<and>
   extMatch ''docs/Guide.md''
     [\<lparr>path = ''pkg/sub/docs/guide.md.txt'', type = Blob, sha = [], size = None, url = []\<rparr>,
      \<lparr>path = ''pkg/sub/docs/xguide.md'', type = Blob, sha = [], size = None, url = []\<rparr>]
     = None \<and>
   resolveSkip3 ''docs/Guide.md''
     [\<lparr>path = ''pkg/sub/docs/guide.md.txt'', type = Blob, sha = [], size = None, url = []\<rparr>,
      \<lparr>path = ''pkg/sub/docs/xguide.md'', type = Blob, sha = [], size = None, url = []\<rparr>]
     = Some ''pkg/sub/docs/guide.md.txt'' \<and>
   resolveActualPath ''docs/Guide.md''
     [\<lparr>path = ''pkg/sub/docs/guide.md.txt'', type = Blob, sha = [], size = None, url = []\<rparr>,
      \<lparr>path = ''pkg/sub/docs/xguide.md'', type = Blob, sha = [], size = None, url = []\<rparr>]
     = Some ''pkg/sub/docs/guide.md.txt''"
proof -
  let ?tree = "[\<lparr>path = ''pkg/sub/docs/guide.md.txt'', type = Blob, sha = [], size = None, url = []\<rparr>,
      \<lparr>path = ''pkg/sub/docs/xguide.md'', type = Blob, sha = [], size = None, url = []\<rparr>]"
  have h: "CHR ''.'' \<in> set (lastPart (split_on CHR ''/'' ''docs/Guide.md''))"
    by code_simp
  have f: "fileOnlyMatch ''docs/Guide.md'' ?tree = None" by code_simp
  have s: "resolveSkip3 ''docs/Guide.md'' ?tree = Some ''pkg/sub/docs/guide.md.txt''"
    by code_simp
  from dotted_name_skips_cascade [OF h, of ?tree] h f s show ?thesis by simp
qed

section \<open>Properties of the resolver over 16-bit code units\<close>

lemma includes16_iff: "includes16 s t \<longleftrightarrow> (\<exists>pre post. s = pre @ t @ post)"
  by (simp add: includes16_def sublist_def)

lemma resolve16_after_stage4:
  assumes "lower [] = []"
    and "exact16 lower suggestedPath tree = None"
    and "fileOnlyMatch16 lower suggestedPath tree = None"
    and "extMatch16 lower suggestedPath tree = None"
    and "suffixMatch16 lower suggestedPath tree = None"
  shows "resolveActualPath16 lower suggestedPath tree =
     (if 4 \<le> length (fileNameOf16 lower suggestedPath)
      then map_option path16
             (find (\<lambda>n. includes16 (lower (path16 n)) (fileNameOf16 lower suggestedPath)
                         \<and> type16 n = Blob) tree)
      else None)"
proof (cases "suggestedPath = [] \<or> tree = []")
  case False
  with assms(2-5) show ?thesis
    by (simp add: resolveActualPath16_def partial16_def Let_def split: option.splits)
next
  case True
  have "fileNameOf16 lower [] = []"
    using assms(1) by (simp add: fileNameOf16_def lastPart16_def)
  with True show ?thesis
    by (auto simp: resolveActualPath16_def)
qed

text \<open>
  C7, as stated: a final segment shorter than 4 characters never reaches stage 5. The
  source measures \<open>fileNameOnly\<close>, the segment after lowering (lines 40 and 72), and
  lowering can lengthen it. The segment \<open>ab\<close> followed by U+0130 has 3 code units and
  its lowered form has 4: stages 1 to 4 find nothing, and stage 5 runs and returns the
  entry whose lowered path contains the lowered name.
\<close>

theorem partial_match_floor_counterexample:
  "length (lastPart16 (split16 47 (ustr ''ab'' @ [304]))) = 3 \<and>
   exact16 toLowerCase16 (ustr ''ab'' @ [304])
     [\<lparr>path16 = ustr ''x/abi'' @ [775] @ ustr ''z.ts'', type16 = Blob,
       sha16 = [], size16 = None, url16 = []\<rparr>] = None \<and>
   fileOnlyMatch16 toLowerCase16 (ustr ''ab'' @ [304])
     [\<lparr>path16 = ustr ''x/abi'' @ [775] @ ustr ''z.ts'', type16 = Blob,
       sha16 = [], size16 = None, url16 = []\<rparr>] = None \<and>
   extMatch16 toLowerCase16 (ustr ''ab'' @ [304])
     [\<lparr>path16 = ustr ''x/abi'' @ [775] @ ustr ''z.ts'', type16 = Blob,
       sha16 = [], size16 = None, url16 = []\<rparr>] = None \<and>
   suffixMatch16 toLowerCase16 (ustr ''ab'' @ [304])
     [\<lparr>path16 = ustr ''x/abi'' @ [775] @ ustr ''z.ts'', type16 = Blob,
       sha16 = [], size16 = None, url16 = []\<rparr>] = None \<and>
   resolveActualPath16 toLowerCase16 (ustr ''ab'' @ [304])
     [\<lparr>path16 = ustr ''x/abi'' @ [775] @ ustr ''z.ts'', type16 = Blob,
       sha16 = [], size16 = None, url16 = []\<rparr>]
     = Some (ustr ''x/abi'' @ [775] @ ustr ''z.ts'')"
  by code_simp

text \<open>
  C7, amended: the length that decides is that of the lowered final segment, the
  \<open>fileNameOnly\<close> of the source. Let stages 1 to 4 find nothing. If the lowered final
  segment has fewer than 4 code units, the result is \<open>null\<close>: stage 5 is not tried.
  If it has at least 4, stage 5 is tried: the result is the path of the first entry of
  type \<open>blob\<close> whose lowered path contains the lowered file name as a substring, and
  \<open>null\<close> when no entry does. This holds for every lowering that leaves the empty
  string empty, as \<open>toLowerCase\<close> does.
\<close>

theorem partial_match_floor:
  assumes "lower [] = []"
    and "exact16 lower suggestedPath tree = None"
    and "fileOnlyMatch16 lower suggestedPath tree = None"
    and "extMatch16 lower suggestedPath tree = None"
    and "suffixMatch16 lower suggestedPath tree = None"
  shows "(length (fileNameOf16 lower suggestedPath) < 4 \<longrightarrow>
            resolveActualPath16 lower suggestedPath tree = None) \<and>
         (4 \<le> length (fileNameOf16 lower suggestedPath) \<longrightarrow>
            (\<forall>i < length tree.
               type16 (tree ! i) = Blob \<and>
               (\<exists>pre post. lower (path16 (tree ! i))
                   = pre @ fileNameOf16 lower suggestedPath @ post) \<and>
               (\<forall>j < i. \<not> (type16 (tree ! j) = Blob \<and>
                   (\<exists>pre post. lower (path16 (tree ! j))
                       = pre @ fileNameOf16 lower suggestedPath @ post)))
               \<longrightarrow> resolveActualPath16 lower suggestedPath tree = Some (path16 (tree ! i))) \<and>
            ((\<forall>n \<in> set tree. \<not> (type16 n = Blob \<and>
                   (\<exists>pre post. lower (path16 n)
                       = pre @ fileNameOf16 lower suggestedPath @ post)))
               \<longrightarrow> resolveActualPath16 lower suggestedPath tree = None))"
proof -
  let ?fn = "fileNameOf16 lower suggestedPath"
  let ?P = "\<lambda>n. includes16 (lower (path16 n)) ?fn \<and> type16 n = Blob"
  note r = resolve16_after_stage4 [OF assms]
  have P: "\<And>n. ?P n \<longleftrightarrow>
      type16 n = Blob \<and> (\<exists>pre post. lower (path16 n) = pre @ ?fn @ post)"
    by (auto simp: includes16_iff)
  have short: "length ?fn < 4 \<longrightarrow> resolveActualPath16 lower suggestedPath tree = None"
    by (simp add: r)
  have first: "resolveActualPath16 lower suggestedPath tree = Some (path16 (tree ! i))"
    if ge: "4 \<le> length ?fn" and i: "i < length tree"
      and hit: "type16 (tree ! i) = Blob \<and> (\<exists>pre post. lower (path16 (tree ! i)) = pre @ ?fn @ post)"
      and before: "\<forall>j < i. \<not> (type16 (tree ! j) = Blob \<and>
                   (\<exists>pre post. lower (path16 (tree ! j)) = pre @ ?fn @ post))"
    for i
  proof -
    have "find ?P tree = Some (tree ! i)"
      unfolding find_Some_iff using i hit before P by blast
    with ge show ?thesis by (simp add: r)
  qed
  have none: "resolveActualPath16 lower suggestedPath tree = None"
    if ge: "4 \<le> length ?fn"
      and no: "\<forall>n \<in> set tree. \<not> (type16 n = Blob \<and>
                   (\<exists>pre post. lower (path16 n) = pre @ ?fn @ post))"
  proof -
    have "find ?P tree = None"
      unfolding find_None_iff using no P by blast
    with ge show ?thesis by (simp add: r)
  qed
  from short first none show ?thesis by blast
qed

theorem partial_match_floor_witness:
  "toLowerCase16 [] = [] \<and>
   length (fileNameOf16 toLowerCase16 (ustr ''Abc'')) < 4 \<and>
   includes16 (toLowerCase16 (ustr ''src/XabcD.ts'')) (fileNameOf16 toLowerCase16 (ustr ''Abc'')) \<and>
   resolveActualPath16 toLowerCase16 (ustr ''Abc'')
     [\<lparr>path16 = ustr ''src/XabcD.ts'', type16 = Blob, sha16 = [], size16 = None, url16 = []\<rparr>]
     = None \<and>
   4 \<le> length (fileNameOf16 toLowerCase16 (ustr ''AbcD'')) \<and>
   resolveActualPath16 toLowerCase16 (ustr ''AbcD'')
     [\<lparr>path16 = ustr ''src/xabcd'', type16 = Tree, sha16 = [], size16 = None, url16 = []\<rparr>,
      \<lparr>path16 = ustr ''src/XabcD.ts'', type16 = Blob, sha16 = [], size16 = None, url16 = []\<rparr>]
     = Some (ustr ''src/XabcD.ts'')"
proof -
  let ?t3 = "[\<lparr>path16 = ustr ''src/XabcD.ts'', type16 = Blob, sha16 = [], size16 = None, url16 = []\<rparr>]"
  let ?t4 = "[\<lparr>path16 = ustr ''src/xabcd'', type16 = Tree, sha16 = [], size16 = None, url16 = []\<rparr>,
      \<lparr>path16 = ustr ''src/XabcD.ts'', type16 = Blob, sha16 = [], size16 = None, url16 = []\<rparr>]"
  have e: "toLowerCase16 [] = []" by (simp add: toLowerCase16_def)
  have a1: "exact16 toLowerCase16 (ustr ''Abc'') ?t3 = None" by code_simp
  have a2: "fileOnlyMatch16 toLowerCase16 (ustr ''Abc'') ?t3 = None" by code_simp
  have a3: "extMatch16 toLowerCase16 (ustr ''Abc'') ?t3 = None" by code_simp
  have a4: "suffixMatch16 toLowerCase16 (ustr ''Abc'') ?t3 = None" by code_simp
  have a5: "length (fileNameOf16 toLowerCase16 (ustr ''Abc'')) < 4" by code_simp
  have a6: "includes16 (toLowerCase16 (ustr ''src/XabcD.ts''))
              (fileNameOf16 toLowerCase16 (ustr ''Abc''))"
    by code_simp
  have b1: "exact16 toLowerCase16 (ustr ''AbcD'') ?t4 = None" by code_simp
  have b2: "fileOnlyMatch16 toLowerCase16 (ustr ''AbcD'') ?t4 = None" by code_simp
  have b3: "extMatch16 toLowerCase16 (ustr ''AbcD'') ?t4 = None" by code_simp
  have b4: "suffixMatch16 toLowerCase16 (ustr ''AbcD'') ?t4 = None" by code_simp
  have b5: "4 \<le> length (fileNameOf16 toLowerCase16 (ustr ''AbcD''))" by code_simp
  have inc: "includes16 (toLowerCase16 (ustr ''src/XabcD.ts''))
               (fileNameOf16 toLowerCase16 (ustr ''AbcD''))"
    by code_simp
  then have b6: "\<exists>pre post. toLowerCase16 (path16 (?t4 ! 1))
       = pre @ fileNameOf16 toLowerCase16 (ustr ''AbcD'') @ post"
    by (simp add: includes16_iff)
  have b7: "type16 (?t4 ! 1) = Blob" by simp
  have b8: "\<forall>j < (1::nat). \<not> (type16 (?t4 ! j) = Blob \<and>
       (\<exists>pre post. toLowerCase16 (path16 (?t4 ! j))
           = pre @ fileNameOf16 toLowerCase16 (ustr ''AbcD'') @ post))"
    by simp
  have b9: "(1::nat) < length ?t4" by simp
  from partial_match_floor [OF e a1 a2 a3 a4] a5
  have r3: "resolveActualPath16 toLowerCase16 (ustr ''Abc'') ?t3 = None" by blast
  from partial_match_floor [OF e b1 b2 b3 b4] b5 b6 b7 b8 b9
  have "resolveActualPath16 toLowerCase16 (ustr ''AbcD'') ?t4 = Some (path16 (?t4 ! 1))"
    by blast
  then have r4: "resolveActualPath16 toLowerCase16 (ustr ''AbcD'') ?t4 = Some (ustr ''src/XabcD.ts'')"
    by simp
  from e a5 a6 r3 b5 r4 show ?thesis by (intro conjI)
qed

section \<open>Facts about the boundaries of Strategy B\<close>

lemma indexOf_absent: "c \<notin> set s \<Longrightarrow> indexOf s c = -1"
  by (induction s) auto

lemma indexOf_present: "c \<in> set s \<Longrightarrow> indexOf s c = int (length (takeWhile (\<lambda>x. x \<noteq> c) s))"
proof (induction s)
  case Nil
  then show ?case by simp
next
  case (Cons x xs)
  show ?case
  proof (cases "x = c")
    case True
    then show ?thesis by simp
  next
    case False
    with Cons.prems have "c \<in> set xs" by simp
    with Cons.IH False show ?thesis by (simp add: Let_def)
  qed
qed

lemma indexOf_firstPos:
  "indexOf s c = (case firstPos c s of None \<Rightarrow> -1 | Some i \<Rightarrow> int i)"
  by (simp add: firstPos_def indexOf_absent indexOf_present)

lemma first_occurrence:
  assumes "c \<in> set s"
  shows "length (takeWhile (\<lambda>x. x \<noteq> c) s) < length s
       \<and> s ! length (takeWhile (\<lambda>x. x \<noteq> c) s) = c
       \<and> (\<forall>j < length (takeWhile (\<lambda>x. x \<noteq> c) s). s ! j \<noteq> c)"
  using assms
proof (induction s)
  case Nil
  then show ?case by simp
next
  case (Cons x xs)
  show ?case
  proof (cases "x = c")
    case True
    then show ?thesis by simp
  next
    case False
    with Cons.prems have "c \<in> set xs" by simp
    with Cons.IH False show ?thesis by (auto simp: nth_Cons')
  qed
qed

lemma firstPos_is_first:
  assumes "firstPos c s = Some i"
  shows "i < length s \<and> s ! i = c \<and> (\<forall>j < i. s ! j \<noteq> c)"
proof -
  from assms have mem: "c \<in> set s" and i: "i = length (takeWhile (\<lambda>x. x \<noteq> c) s)"
    by (auto simp: firstPos_def split: if_splits)
  from first_occurrence [OF mem] show ?thesis unfolding i .
qed

lemma firstPos_None_iff: "firstPos c s = None \<longleftrightarrow> c \<notin> set s"
  by (simp add: firstPos_def)

lemma lastPos_None_iff: "lastPos c s = None \<longleftrightarrow> c \<notin> set s"
  by (simp add: lastPos_def)

lemma lastPos_is_last:
  assumes "lastPos c s = Some i"
  shows "i < length s \<and> s ! i = c \<and> (\<forall>j. i < j \<and> j < length s \<longrightarrow> s ! j \<noteq> c)"
proof -
  let ?k = "length (takeWhile (\<lambda>x. x \<noteq> c) (rev s))"
  from assms have mem: "c \<in> set (rev s)" and i: "i = length s - 1 - ?k"
    by (auto simp: lastPos_def split: if_splits)
  from first_occurrence [OF mem]
  have k: "?k < length s" and at: "rev s ! ?k = c" and before: "\<forall>j < ?k. rev s ! j \<noteq> c"
    by simp_all
  have lt: "i < length s" using k i by simp
  have "s ! i = c" using at k i by (simp add: rev_nth)
  moreover have "\<forall>j. i < j \<and> j < length s \<longrightarrow> s ! j \<noteq> c"
  proof (intro allI impI)
    fix j assume j: "i < j \<and> j < length s"
    then have "length s - 1 - j < ?k" using i k by linarith
    with before have "rev s ! (length s - 1 - j) \<noteq> c" by simp
    moreover have "rev s ! (length s - 1 - j) = s ! j"
    proof -
      have a: "length s - 1 - j < length s" using j by linarith
      have b: "length s - Suc (length s - 1 - j) = j" using j by linarith
      show ?thesis using rev_nth [OF a] b by simp
    qed
    ultimately show "s ! j \<noteq> c" by simp
  qed
  ultimately show ?thesis using lt by simp
qed

lemma lastIndexOf_lastPos:
  "lastIndexOf s c = (case lastPos c s of None \<Rightarrow> -1 | Some i \<Rightarrow> int i)"
proof (cases "c \<in> set s")
  case False
  then show ?thesis by (simp add: lastIndexOf_def lastPos_def indexOf_absent)
next
  case True
  then have "c \<in> set (rev s)" by simp
  from first_occurrence [OF this]
  have "length (takeWhile (\<lambda>x. x \<noteq> c) (rev s)) < length s" by simp
  with True show ?thesis
    by (simp add: lastIndexOf_def lastPos_def indexOf_present Let_def of_nat_diff)
qed

lemma boundaryStart_spec:
  "boundaryStart text = (case specStart text of None \<Rightarrow> -1 | Some i \<Rightarrow> int i)"
  by (simp add: boundaryStart_def specStart_def indexOf_firstPos Let_def split: option.splits)

lemma boundaryEnd_spec:
  "boundaryEnd text = (case specEnd text of None \<Rightarrow> -1 | Some i \<Rightarrow> int i)"
  by (auto simp: boundaryEnd_def specEnd_def lastIndexOf_lastPos Let_def split: option.splits)

lemma specEnd_bound: "specEnd text = Some t \<Longrightarrow> t < length text"
  by (auto simp: specEnd_def split: option.splits dest: lastPos_is_last)

lemma slice_inclusive:
  assumes "s < t" "t < length text"
  shows "slice text (int s) (int t + 1) = take (t + 1 - s) (drop s text)"
proof -
  have "nat (int t + 1 - int s) = t + 1 - s" using assms by linarith
  then show ?thesis using assms by (simp add: slice_def Let_def min_def)
qed

lemma strategyB_spec:
  "(let start = boundaryStart text; end' = boundaryEnd text
    in if start \<noteq> -1 \<and> end' \<noteq> -1 \<and> end' > start
       then Some (JSON_parse (slice text start (end' + 1))) else None)
   = specStrategyB JSON_parse text"
proof (cases "specStart text")
  case None
  then show ?thesis
    by (simp add: boundaryStart_spec specStrategyB_def)
next
  case (Some s)
  note s = this
  show ?thesis
  proof (cases "specEnd text")
    case None
    with s show ?thesis
      by (simp add: boundaryStart_spec boundaryEnd_spec specStrategyB_def)
  next
    case (Some t)
    then have "t < length text" by (rule specEnd_bound)
    with s Some show ?thesis
      by (simp add: boundaryStart_spec boundaryEnd_spec specStrategyB_def slice_inclusive)
  qed
qed

lemma safeJsonParse_after_A_fails:
  assumes "JSON_parse (cleaned text) = Inl e"
  shows "safeJsonParse JSON_parse text console =
     (case specStrategyB JSON_parse text of
        Some (Inr v) \<Rightarrow>
          (Inr v, console @ [[LogStr ''JSON parse failed. Raw Text:'', LogStr text]])
      | Some (Inl innerError) \<Rightarrow>
          (Inl (Error invalidFormat),
           console @ [[LogStr ''JSON parse failed. Raw Text:'', LogStr text],
                      [LogStr ''Nested JSON recovery failed'', LogErr innerError]])
      | None \<Rightarrow>
          (Inl (Error invalidFormat),
           console @ [[LogStr ''JSON parse failed. Raw Text:'', LogStr text]]))"
proof -
  have "safeJsonParse JSON_parse text console =
     (case (let start = boundaryStart text; end' = boundaryEnd text
            in if start \<noteq> -1 \<and> end' \<noteq> -1 \<and> end' > start
               then Some (JSON_parse (slice text start (end' + 1))) else None) of
        Some (Inr v) \<Rightarrow>
          (Inr v, console @ [[LogStr ''JSON parse failed. Raw Text:'', LogStr text]])
      | Some (Inl innerError) \<Rightarrow>
          (Inl (Error invalidFormat),
           console @ [[LogStr ''JSON parse failed. Raw Text:'', LogStr text],
                      [LogStr ''Nested JSON recovery failed'', LogErr innerError]])
      | None \<Rightarrow>
          (Inl (Error invalidFormat),
           console @ [[LogStr ''JSON parse failed. Raw Text:'', LogStr text]]))"
    using assms by (simp add: safeJsonParse_def Let_def split: sum.splits)
  then show ?thesis by (simp only: strategyB_spec)
qed

lemma safeJsonParse_result:
  "fst (safeJsonParse JSON_parse text console) =
     (case JSON_parse (cleaned text) of
        Inr v \<Rightarrow> Inr v
      | Inl e \<Rightarrow>
          (case specStrategyB JSON_parse text of
             Some (Inr v) \<Rightarrow> Inr v
           | _ \<Rightarrow> Inl (Error invalidFormat)))"
proof (cases "JSON_parse (cleaned text)")
  case (Inr v)
  then show ?thesis by (simp add: safeJsonParse_def)
next
  case (Inl e)
  then show ?thesis
    by (simp add: safeJsonParse_after_A_fails split: option.splits sum.splits)
qed

section \<open>The entries are read through their path and type only\<close>












section \<open>Properties of safeJsonParse\<close>

text \<open>
  C2, as stated: when both strategies fail, the failure that \<open>safeJsonParse\<close> throws
  carries the original raw text. The function throws \<open>new Error\<close> with a fixed
  message: two different raw texts fail with one and the same value, so the text cannot
  be read off it.
\<close>

theorem terminal_failure_counterexample:
  "fst (safeJsonParse bracketDecoder ''no json here at all'' [])
     = Inl (Error invalidFormat) \<and>
   fst (safeJsonParse bracketDecoder ''none here either'' [])
     = Inl (Error invalidFormat) \<and>
   ''no json here at all'' \<noteq> ''none here either''"
  by code_simp

text \<open>
  C2, amended: whenever \<open>safeJsonParse\<close> fails, the failure is the \<open>Error\<close> with the
  fixed message, the same for every input; the original raw text is not in the failure
  value but in the console, where the first entry written by the call is
  \<open>JSON parse failed. Raw Text:\<close> followed by the text.
\<close>

theorem terminal_failure_logs_raw_text:
  assumes "fst (safeJsonParse JSON_parse text console) = Inl x"
  shows "x = Error invalidFormat \<and>
         (\<exists>rest. snd (safeJsonParse JSON_parse text console)
            = console @ [LogStr ''JSON parse failed. Raw Text:'', LogStr text] # rest)"
proof (cases "JSON_parse (cleaned text)")
  case (Inr v)
  with assms show ?thesis by (simp add: safeJsonParse_def)
next
  case (Inl e)
  from assms show ?thesis
    unfolding safeJsonParse_after_A_fails [of JSON_parse "text" e console, OF Inl]
    by (auto split: option.splits sum.splits)
qed

theorem terminal_failure_logs_raw_text_witness:
  "fst (safeJsonParse bracketDecoder ''no json here at all'' [[LogStr ''earlier'']])
     = Inl (Error invalidFormat) \<and>
   snd (safeJsonParse bracketDecoder ''no json here at all'' [[LogStr ''earlier'']])
     = [[LogStr ''earlier''],
        [LogStr ''JSON parse failed. Raw Text:'', LogStr ''no json here at all'']]"
proof -
  have h: "fst (safeJsonParse bracketDecoder ''no json here at all'' [[LogStr ''earlier'']])
     = Inl (Error invalidFormat)"
    by code_simp
  have s: "snd (safeJsonParse bracketDecoder ''no json here at all'' [[LogStr ''earlier'']])
     = [[LogStr ''earlier''],
        [LogStr ''JSON parse failed. Raw Text:'', LogStr ''no json here at all'']]"
    by code_simp
  from terminal_failure_logs_raw_text [OF h] h s show ?thesis by simp
qed

text \<open>
  C3: when the parse of Strategy A fails, the start index of Strategy B is the position
  of the first \<open>{\<close> if there is one and either no \<open>[\<close> exists or the \<open>{\<close> comes
  first, and the position of the first \<open>[\<close> otherwise; the end index is the later of
  the last \<open>}\<close> and the last \<open>]\<close>; a missing index is -1. The slice from start
  through end inclusive is given to the decoder exactly when both exist and the end is
  strictly after the start: then the decoder's answer on the slice decides the outcome,
  and otherwise the call fails with no second parse.
\<close>

theorem boundary_slice_rule:
  assumes "JSON_parse (cleaned text) = Inl e"
  shows "boundaryStart text = (case specStart text of None \<Rightarrow> -1 | Some i \<Rightarrow> int i) \<and>
         boundaryEnd text = (case specEnd text of None \<Rightarrow> -1 | Some i \<Rightarrow> int i) \<and>
         safeJsonParse JSON_parse text console =
           (case specStrategyB JSON_parse text of
              Some (Inr v) \<Rightarrow>
                (Inr v, console @ [[LogStr ''JSON parse failed. Raw Text:'', LogStr text]])
            | Some (Inl innerError) \<Rightarrow>
                (Inl (Error invalidFormat),
                 console @ [[LogStr ''JSON parse failed. Raw Text:'', LogStr text],
                            [LogStr ''Nested JSON recovery failed'', LogErr innerError]])
            | None \<Rightarrow>
                (Inl (Error invalidFormat),
                 console @ [[LogStr ''JSON parse failed. Raw Text:'', LogStr text]]))"
  using assms
  by (simp only: boundaryStart_spec boundaryEnd_spec safeJsonParse_after_A_fails simp_thms)

theorem boundary_slice_rule_witness:
  "bracketDecoder (cleaned ''Here is the result: [1, {2}] Hope that helps!'')
     = Inl ''SyntaxError'' \<and>
   boundaryStart ''Here is the result: [1, {2}] Hope that helps!'' = 20 \<and>
   boundaryEnd ''Here is the result: [1, {2}] Hope that helps!'' = 27 \<and>
   specStrategyB bracketDecoder ''Here is the result: [1, {2}] Hope that helps!''
     = Some (Inr ''[1, {2}]'') \<and>
   safeJsonParse bracketDecoder ''Here is the result: [1, {2}] Hope that helps!'' []
     = (Inr ''[1, {2}]'',
        [[LogStr ''JSON parse failed. Raw Text:'',
          LogStr ''Here is the result: [1, {2}] Hope that helps!'']])"
proof -
  have h: "bracketDecoder (cleaned ''Here is the result: [1, {2}] Hope that helps!'')
     = Inl ''SyntaxError''"
    by code_simp
  have s: "specStart ''Here is the result: [1, {2}] Hope that helps!'' = Some 20"
    by code_simp
  have t: "specEnd ''Here is the result: [1, {2}] Hope that helps!'' = Some 27"
    by code_simp
  have b: "specStrategyB bracketDecoder ''Here is the result: [1, {2}] Hope that helps!''
     = Some (Inr ''[1, {2}]'')"
    by code_simp
  from boundary_slice_rule
      [of bracketDecoder "''Here is the result: [1, {2}] Hope that helps!''" "''SyntaxError''" "[]",
       OF h]
    h s t b
  show ?thesis by simp
qed

text \<open>
  C9: for every decoder and every text, \<open>safeJsonParse\<close> either returns a value or
  fails with the \<open>Error\<close> of the fixed message. An exception of the decoder, in
  Strategy A or in Strategy B, is never what the caller gets.
\<close>

theorem only_invalid_format_escapes:
  "(\<exists>v. fst (safeJsonParse JSON_parse text console) = Inr v) \<or>
   fst (safeJsonParse JSON_parse text console) = Inl (Error invalidFormat)"
  by (simp add: safeJsonParse_result split: sum.splits option.splits)





end
